theory Spec2Isabelle
  imports Main
begin

section \<open>JavaScript values\<close>

text \<open>
  The configuration handed to \<^verbatim>\<open>SafeCfg.load\<close> and the schema handed to the
  constructor are JavaScript values. They are modelled as data: the primitives, arrays,
  and objects given by their own data properties in insertion order (the first binding
  of a key is the one a lookup finds). \<open>JObj ps\<close> is an ordinary object, whose
  prototype is the realm's \<^verbatim>\<open>Object.prototype\<close>; \<open>JCreated ps proto\<close> is an object
  with the given prototype, as \<^verbatim>\<open>Object.create(proto)\<close> makes it (\<open>JNull\<close> for no
  prototype). The TypeScript parameter type \<^verbatim>\<open>Record<string, any>\<close> is erased at
  run time, so \<^verbatim>\<open>null\<close> and \<^verbatim>\<open>undefined\<close> are possible arguments and are part
  of the model. Numbers are never inspected by the code; their payload is an integer
  here. Accessor properties, proxies and function values are outside the model.
\<close>

datatype jsval =
    JUndefined
  | JNull
  | JBool bool
  | JNum int
  | JStr string
  | JArr "jsval list"
  | JObj "(string \<times> jsval) list"
  | JCreated "(string \<times> jsval) list" jsval

text \<open>
  What a \<^verbatim>\<open>throw\<close> can raise: an \<^verbatim>\<open>Error\<close> instance, given by its
  \<^verbatim>\<open>message\<close>, or one of the values \<^verbatim>\<open>null\<close> and \<^verbatim>\<open>undefined\<close>. Other
  thrown values (primitives, objects that are no errors) are outside the model.
\<close>

datatype thrown = ThrownError string | ThrownNull | ThrownUndefined

text \<open>
  The member expression \<^verbatim>\<open>error.message\<close> of the \<^verbatim>\<open>catch\<close> block. It is the
  message of an error, and itself throws a \<^verbatim>\<open>TypeError\<close> on \<^verbatim>\<open>null\<close> and
  \<^verbatim>\<open>undefined\<close> (message text as Node.js words it).
\<close>

fun read_message :: "thrown \<Rightarrow> thrown + string" where
  "read_message (ThrownError m) = Inr m"
| "read_message ThrownNull =
     Inl (ThrownError ''Cannot read properties of null (reading 'message')'')"
| "read_message ThrownUndefined =
     Inl (ThrownError ''Cannot read properties of undefined (reading 'message')'')"

text \<open>Reading a nested field along a path of keys, through own properties; \<open>None\<close> is
  \<^verbatim>\<open>undefined\<close>.\<close>

fun path_lookup :: "jsval \<Rightarrow> string list \<Rightarrow> jsval option" where
  "path_lookup v [] = Some v"
| "path_lookup (JObj ps) (k # ks) =
     (case map_of ps k of None \<Rightarrow> None | Some v \<Rightarrow> path_lookup v ks)"
| "path_lookup (JCreated ps proto) (k # ks) =
     (case map_of ps k of None \<Rightarrow> None | Some v \<Rightarrow> path_lookup v ks)"
| "path_lookup _ (k # ks) = None"

text \<open>The non-null objects: \<^verbatim>\<open>typeof v === 'object' && v !== null\<close>.\<close>

fun is_object :: "jsval \<Rightarrow> bool" where
  "is_object (JObj ps) = True"
| "is_object (JCreated ps proto) = True"
| "is_object (JArr vs) = True"
| "is_object _ = False"

section \<open>The ambient process state\<close>

text \<open>
  What the code reaches without being handed it:
  \<^item> the process environment \<^verbatim>\<open>process.env\<close>, read by the constructor;
  \<^item> the global \<^verbatim>\<open>console.log\<close>, called by \<^verbatim>\<open>validateSchema\<close>: it either
    writes its line and returns, or has been replaced by a function that throws;
  \<^item> the lines the console has received so far;
  \<^item> the built-in prototypes, which every property read falls back to: the data
    properties that have been added to each of them.
\<close>

datatype log_behaviour = Logs | Throws thrown

datatype builtin =
  ObjectPrototype | ArrayPrototype | BooleanPrototype | NumberPrototype | StringPrototype

record world =
  proc_env :: "string \<rightharpoonup> string"
  console_log :: log_behaviour
  console :: "string list"
  prototype_props :: "builtin \<Rightarrow> (string \<times> jsval) list"

text \<open>
  The property \<^verbatim>\<open>debug\<close> as a chain of built-in prototypes supplies it: the first
  prototype that has it wins, and \<^verbatim>\<open>undefined\<close> is the result when none has.
\<close>

fun inherited_debug :: "world \<Rightarrow> builtin list \<Rightarrow> jsval" where
  "inherited_debug w [] = JUndefined"
| "inherited_debug w (b # bs) =
     (case map_of (prototype_props w b) ''debug'' of
        Some v \<Rightarrow> v
      | None \<Rightarrow> inherited_debug w bs)"

text \<open>
  The value of \<^verbatim>\<open>v.debug\<close> for a value that is not \<^verbatim>\<open>null\<close> or
  \<^verbatim>\<open>undefined\<close>: an own property if there is one, otherwise what the prototype
  chain gives. A chain that ends in \<^verbatim>\<open>null\<close> gives \<^verbatim>\<open>undefined\<close>. Array
  elements and the characters of a string are no candidates for the key
  \<^verbatim>\<open>debug\<close>.
\<close>

fun debug_member :: "world \<Rightarrow> jsval \<Rightarrow> jsval" where
  "debug_member w (JObj ps) =
     (case map_of ps ''debug'' of
        Some v \<Rightarrow> v
      | None \<Rightarrow> inherited_debug w [ObjectPrototype])"
| "debug_member w (JCreated ps proto) =
     (case map_of ps ''debug'' of
        Some v \<Rightarrow> v
      | None \<Rightarrow> debug_member w proto)"
| "debug_member w (JArr vs) = inherited_debug w [ArrayPrototype, ObjectPrototype]"
| "debug_member w (JBool b) = inherited_debug w [BooleanPrototype, ObjectPrototype]"
| "debug_member w (JNum n) = inherited_debug w [NumberPrototype, ObjectPrototype]"
| "debug_member w (JStr s) = inherited_debug w [StringPrototype, ObjectPrototype]"
| "debug_member w JNull = JUndefined"
| "debug_member w JUndefined = JUndefined"

text \<open>
  The member expression \<^verbatim>\<open>config.debug\<close>. On \<^verbatim>\<open>null\<close> and
  \<^verbatim>\<open>undefined\<close> it throws a \<^verbatim>\<open>TypeError\<close> (message text as Node.js words it);
  on every other value it is the property as the value and its prototype chain give it.
\<close>

fun read_debug :: "world \<Rightarrow> jsval \<Rightarrow> thrown + jsval" where
  "read_debug w JUndefined =
     Inl (ThrownError ''Cannot read properties of undefined (reading 'debug')'')"
| "read_debug w JNull =
     Inl (ThrownError ''Cannot read properties of null (reading 'debug')'')"
| "read_debug w v = Inr (debug_member w v)"

section \<open>SafeCfg\<close>

text \<open>
  An optional property of an options object is not set, set to \<^verbatim>\<open>undefined\<close>,
  or set to a value; object spread copies it in the last two cases.
\<close>

datatype 'a optional = NotSet | SetUndefined | SetTo 'a

record SafeCfgOptions =
  environment :: "string optional"
  strict :: "bool optional"

record ValidationResult =
  valid :: bool
  errors :: "string list"
  warnings :: "string list"

record SafeCfg =
  schema :: jsval
  options :: SafeCfgOptions

text \<open>One property of \<^verbatim>\<open>{ ...defaults, ...options }\<close>.\<close>

fun spread_prop :: "'a optional \<Rightarrow> 'a optional \<Rightarrow> 'a optional" where
  "spread_prop d NotSet = d"
| "spread_prop d given = given"

text \<open>\<^verbatim>\<open>process.env.NODE_ENV || 'development'\<close>: the empty string is falsy.\<close>

definition node_env_or_development :: "world \<Rightarrow> string" where
  "node_env_or_development w =
     (case proc_env w ''NODE_ENV'' of
        None \<Rightarrow> ''development''
      | Some s \<Rightarrow> if s = [] then ''development'' else s)"

definition new_SafeCfg :: "world \<Rightarrow> jsval \<Rightarrow> SafeCfgOptions \<Rightarrow> SafeCfg" where
  "new_SafeCfg w sch opts =
     \<lparr> schema = sch,
       options = \<lparr> environment =
                     spread_prop (SetTo (node_env_or_development w)) (environment opts),
                   strict = spread_prop (SetTo False) (strict opts) \<rparr> \<rparr>"

text \<open>
  The methods receive the configuration by reference and could write to it, as they
  could to the console; each model returns how the call completes (normally, or with
  the value thrown) and the state it leaves behind. \<^verbatim>\<open>validateSchema\<close> calls
  \<^verbatim>\<open>console.log\<close> with one line and returns.
\<close>

definition validateSchema :: "world \<Rightarrow> jsval \<Rightarrow> (thrown + unit) \<times> world \<times> jsval" where
  "validateSchema w config =
     (case console_log w of
        Logs \<Rightarrow> (Inr (), w\<lparr>console := console w @ [''Validating schema...'']\<rparr>, config)
      | Throws e \<Rightarrow> (Inl e, w, config))"

text \<open>
  \<^verbatim>\<open>validateForProduction\<close>: how the call completes, the configuration and the
  \<^verbatim>\<open>warnings\<close> array afterwards.
\<close>

definition validateForProduction ::
  "world \<Rightarrow> jsval \<Rightarrow> string list \<Rightarrow> (thrown + unit) \<times> jsval \<times> string list" where
  "validateForProduction w config warnings0 =
     (case read_debug w config of
        Inl e \<Rightarrow> (Inl e, config, warnings0)
      | Inr d \<Rightarrow>
          if d = JBool True
          then (Inr (), config,
                warnings0 @ [''Debug mode is enabled in production environment''])
          else (Inr (), config, warnings0))"

text \<open>A settled promise.\<close>

datatype 'a promise = Resolved 'a | Rejected thrown

record load_state =
  completion :: "thrown + unit"
  config_after :: jsval
  warnings_after :: "string list"
  world_after :: world

text \<open>
  The statements inside \<^verbatim>\<open>try\<close> in \<^verbatim>\<open>load\<close>, up to the \<^verbatim>\<open>return\<close>: a
  statement that throws ends them.
\<close>

definition load_try :: "SafeCfg \<Rightarrow> world \<Rightarrow> jsval \<Rightarrow> string list \<Rightarrow> load_state" where
  "load_try this w config warnings0 =
     (case validateSchema w config of
        (Inl e, w1, c1) \<Rightarrow>
          \<lparr> completion = Inl e, config_after = c1, warnings_after = warnings0,
            world_after = w1 \<rparr>
      | (Inr u, w1, c1) \<Rightarrow>
          if environment (options this) = SetTo ''production''
          then (case validateForProduction w1 c1 warnings0 of
                  (r, c2, ws) \<Rightarrow>
                    \<lparr> completion = r, config_after = c2, warnings_after = ws,
                      world_after = w1 \<rparr>)
          else \<lparr> completion = Inr (), config_after = c1, warnings_after = warnings0,
                 world_after = w1 \<rparr>)"

record load_outcome =
  settled :: "ValidationResult promise"
  config_left :: jsval
  world_left :: world

text \<open>
  \<^verbatim>\<open>load\<close>. The \<^verbatim>\<open>catch\<close> block builds its one entry from
  \<^verbatim>\<open>error.message\<close>; when that read throws, nothing catches it and the promise of
  the \<^verbatim>\<open>async\<close> method is rejected.
\<close>

definition load :: "SafeCfg \<Rightarrow> world \<Rightarrow> jsval \<Rightarrow> load_outcome" where
  "load this w config =
     (let errors0 = ([] :: string list);
          warnings0 = ([] :: string list);
          st = load_try this w config warnings0
      in case completion st of
           Inr _ \<Rightarrow>
             \<lparr> settled = Resolved \<lparr> valid = (length errors0 = 0), errors = errors0,
                                    warnings = warnings_after st \<rparr>,
               config_left = config_after st, world_left = world_after st \<rparr>
         | Inl error \<Rightarrow>
             (case read_message error of
                Inr m \<Rightarrow>
                  \<lparr> settled = Resolved \<lparr> valid = False,
                                         errors = [''Validation failed: '' @ m],
                                         warnings = [] \<rparr>,
                    config_left = config_after st, world_left = world_after st \<rparr>
              | Inl e \<Rightarrow>
                  \<lparr> settled = Rejected e,
                    config_left = config_after st, world_left = world_after st \<rparr>))"

section \<open>The schema and result types declared in types.ts\<close>

text \<open>
  \<^verbatim>\<open>types.ts\<close> declares the schema tree: a \<^verbatim>\<open>SchemaNode\<close> describes one field,
  and a \<^verbatim>\<open>SchemaDefinition\<close> maps keys to nodes or to nested definitions. The
  record keeps the attributes that the operations below read; an optional boolean that
  is not set counts as false and an optional list that is not set as empty.
\<close>

datatype field_type = TString | TNumber | TBoolean | TArray | TObject

record SchemaNode =
  type :: field_type
  required :: bool
  default_value :: "jsval option"
  secret :: bool
  dependsOn :: "string list"
  conflictsWith :: "string list"

datatype schema_entry = Node SchemaNode | Definition "(string \<times> schema_entry) list"

type_synonym SchemaDefinition = "(string \<times> schema_entry) list"

record CompiledPath =
  path :: string
  path_type :: field_type
  defaultValue :: "jsval option"
  isSecret :: bool
  path_required :: bool

text \<open>
  \<^verbatim>\<open>DependencyGraph\<close> is declared as an interface only. Its state is taken here to
  be the list of edges added so far, each with its kind.
\<close>

datatype dep_kind = Requires | Conflicts

type_synonym DependencyGraph = "(string \<times> string \<times> dep_kind) list"

record CompiledSchema =
  paths :: "(string \<times> CompiledPath) list"
  dependencies :: DependencyGraph

record ConfigResult =
  config :: jsval
  safeConfig :: jsval
  rawConfig :: jsval

text \<open>
  A failed compile step: the error's \<open>code\<close> (a string, as in \<^verbatim>\<open>SafeCfgError\<close>)
  and the field path it names.
\<close>

record SchemaError =
  code :: string
  named_path :: string

section \<open>The dependency graph\<close>

text \<open>
  Modelled from the spec: \<^verbatim>\<open>DependencyGraph.addDependency\<close>, of which the
  repository has the signature only. It inserts a directed edge and is idempotent on an
  edge that is already there.
\<close>

definition addDependency ::
  "DependencyGraph \<Rightarrow> string \<Rightarrow> string \<Rightarrow> dep_kind \<Rightarrow> DependencyGraph" where
  "addDependency g from to kind =
     (if (from, to, kind) \<in> set g then g else g @ [(from, to, kind)])"

text \<open>
  Modelled from the spec: \<^verbatim>\<open>DependencyGraph.getDependencies\<close> (signature only in
  the repository): the paths a path requires, in insertion order.
\<close>

definition getDependencies :: "DependencyGraph \<Rightarrow> string \<Rightarrow> string list" where
  "getDependencies g p = map (fst \<circ> snd) (filter (\<lambda>(f, t, k). f = p \<and> k = Requires) g)"

text \<open>
  Modelled from the spec: \<^verbatim>\<open>DependencyGraph.getConflicts\<close> (signature only in the
  repository): the declared conflicting paths of a path.
\<close>

definition getConflicts :: "DependencyGraph \<Rightarrow> string \<Rightarrow> string list" where
  "getConflicts g p = map (fst \<circ> snd) (filter (\<lambda>(f, t, k). f = p \<and> k = Conflicts) g)"

text \<open>
  The depth-first traversal keeps a stack of frames: \<open>Enter v\<close> is a pending visit of
  \<open>v\<close>, \<open>Exit v\<close> marks the point where the visit of \<open>v\<close> is complete. A node is
  gray from its \<open>Enter\<close> to its \<open>Exit\<close> and black afterwards.
\<close>

datatype frame = Enter string | Exit string

fun frame_node :: "frame \<Rightarrow> string" where
  "frame_node (Enter v) = v"
| "frame_node (Exit v) = v"

text \<open>
  The measure of the traversal: the nodes, of the graph or on the stack, that are not
  yet gray or black. They never grow in number and shrink when a node is entered;
  otherwise the stack gets shorter.
\<close>

definition graph_nodes :: "DependencyGraph \<Rightarrow> string set" where
  "graph_nodes g = fst ` set g \<union> (fst \<circ> snd) ` set g"

definition unvisited ::
  "DependencyGraph \<Rightarrow> frame list \<Rightarrow> string list \<Rightarrow> string list \<Rightarrow> string set" where
  "unvisited g st gray black =
     (graph_nodes g \<union> frame_node ` set st) - (set gray \<union> set black)"

lemma finite_unvisited: "finite (unvisited g st gray black)"
  by (simp add: unvisited_def graph_nodes_def)

lemma getDependencies_nodes: "set (getDependencies g v) \<subseteq> graph_nodes g"
  by (force simp: getDependencies_def graph_nodes_def)

lemma unvisited_pop_le:
  assumes "set gray \<union> set black \<subseteq> set gray' \<union> set black'"
  shows "card (unvisited g st gray' black') \<le> card (unvisited g (f # st) gray black)"
proof (rule card_mono [OF finite_unvisited])
  show "unvisited g st gray' black' \<subseteq> unvisited g (f # st) gray black"
    using assms by (auto simp: unvisited_def)
qed

lemma unvisited_enter_less:
  assumes "v \<notin> set gray" and "v \<notin> set black"
  shows "card (unvisited g (map Enter (getDependencies g v) @ Exit v # st) (v # gray) black)
           < card (unvisited g (Enter v # st) gray black)"
proof (rule psubset_card_mono [OF finite_unvisited])
  show "unvisited g (map Enter (getDependencies g v) @ Exit v # st) (v # gray) black
          \<subset> unvisited g (Enter v # st) gray black"
    using assms getDependencies_nodes [of g v] by (auto simp: unvisited_def)
qed

text \<open>
  Modelled from the spec: the traversal behind
  \<^verbatim>\<open>DependencyGraph.hasCircularDependency\<close> (signature only in the repository), a
  depth-first search over the \<open>requires\<close> edges with gray/black marking. Meeting a gray
  node again closes a cycle, and that node is returned; \<open>conflicts\<close> edges are not
  followed.
\<close>

function dfs_cycle ::
  "DependencyGraph \<Rightarrow> frame list \<Rightarrow> string list \<Rightarrow> string list \<Rightarrow> string option" where
  "dfs_cycle g [] gray black = None"
| "dfs_cycle g (Exit v # st) gray black = dfs_cycle g st (removeAll v gray) (v # black)"
| "dfs_cycle g (Enter v # st) gray black =
     (if v \<in> set black then dfs_cycle g st gray black
      else if v \<in> set gray then Some v
      else dfs_cycle g (map Enter (getDependencies g v) @ Exit v # st) (v # gray) black)"
  by pat_completeness auto

termination
proof (relation "measures [\<lambda>(g, st, gray, black). card (unvisited g st gray black),
                           \<lambda>(g, st, gray, black). length st]", goal_cases)
  case 1
  show ?case by simp
next
  case (2 g v st gray black)
  have "card (unvisited g st (removeAll v gray) (v # black))
          \<le> card (unvisited g (Exit v # st) gray black)"
    by (rule unvisited_pop_le) auto
  then show ?case by auto
next
  case (3 g v st gray black)
  have "card (unvisited g st gray black) \<le> card (unvisited g (Enter v # st) gray black)"
    by (rule unvisited_pop_le) auto
  then show ?case by auto
next
  case (4 g v st gray black)
  then show ?case
    using unvisited_enter_less [of v gray black g st] by simp
qed

text \<open>
  Modelled from the spec: the cycle search that \<^verbatim>\<open>hasCircularDependency\<close> and the
  compile step share (not in the repository): the traversal, started from every path
  that has an outgoing edge.
\<close>

definition find_cycle :: "DependencyGraph \<Rightarrow> string option" where
  "find_cycle g = dfs_cycle g (map Enter (map fst g)) [] []"

text \<open>
  Modelled from the spec: \<^verbatim>\<open>DependencyGraph.hasCircularDependency\<close> (signature only
  in the repository).
\<close>

definition hasCircularDependency :: "DependencyGraph \<Rightarrow> bool" where
  "hasCircularDependency g = (find_cycle g \<noteq> None)"

section \<open>The schema compiler\<close>

text \<open>
  Modelled from the spec: the dot-joined path of a key below a prefix, used by the
  schema compiler's walk (not in the repository).
\<close>

definition dot_join :: "string \<Rightarrow> string \<Rightarrow> string" where
  "dot_join prefix key = (if prefix = [] then key else prefix @ ''.'' @ key)"

text \<open>
  Modelled from the spec: the schema compiler's walk (not in the repository). A nested
  definition is recursed into with its key appended to the path; each leaf yields one
  path.
\<close>

fun walk_node :: "string \<Rightarrow> schema_entry \<Rightarrow> (string \<times> SchemaNode) list"
  and walk_entries ::
    "string \<Rightarrow> (string \<times> schema_entry) list \<Rightarrow> (string \<times> SchemaNode) list" where
  "walk_node p (Node n) = [(p, n)]"
| "walk_node p (Definition es) = walk_entries p es"
| "walk_entries p [] = []"
| "walk_entries p ((k, d) # es) = walk_node (dot_join p k) d @ walk_entries p es"

text \<open>
  Modelled from the spec: the compiler's side effect on the graph (not in the
  repository): an edge for every \<^verbatim>\<open>dependsOn\<close> and every \<^verbatim>\<open>conflictsWith\<close>
  entry of a leaf.
\<close>

definition add_node_edges :: "string \<Rightarrow> SchemaNode \<Rightarrow> DependencyGraph \<Rightarrow> DependencyGraph" where
  "add_node_edges p n g =
     fold (\<lambda>c g'. addDependency g' p c Conflicts) (conflictsWith n)
       (fold (\<lambda>d g'. addDependency g' p d Requires) (dependsOn n) g)"

text \<open>
  Modelled from the spec: the graph the compiler populates from all leaves (not in the
  repository).
\<close>

definition build_graph :: "(string \<times> SchemaNode) list \<Rightarrow> DependencyGraph" where
  "build_graph leaves = fold (\<lambda>(p, n) g. add_node_edges p n g) leaves []"

text \<open>
  Modelled from the spec: the \<^verbatim>\<open>CompiledPath\<close> of one leaf (not in the repository).
\<close>

definition compile_path :: "string \<Rightarrow> SchemaNode \<Rightarrow> CompiledPath" where
  "compile_path p n =
     \<lparr> path = p, path_type = type n, defaultValue = default_value n, isSecret = secret n,
       path_required = required n \<rparr>"

text \<open>
  Modelled from the spec: \<^verbatim>\<open>compile\<close> (not in the repository), as far as the
  dependency graph is concerned: the schema is flattened, the graph populated, and a
  cycle among the \<open>requires\<close> edges fails the step with code
  \<^verbatim>\<open>CIRCULAR_DEPENDENCY\<close>, naming the path at which the traversal closed the cycle.
  The other failures the spec lists for the step (a misplaced bound or pattern, a
  duplicate path, the recursion depth limit) are not modelled; the spec gives no order
  between them and the cycle check.
\<close>

definition compile :: "SchemaDefinition \<Rightarrow> SchemaError + CompiledSchema" where
  "compile sch =
     (let leaves = walk_entries [] sch;
          g = build_graph leaves
      in case find_cycle g of
           Some m \<Rightarrow> Inl \<lparr> code = ''CIRCULAR_DEPENDENCY'', named_path = m \<rparr>
         | None \<Rightarrow>
             Inr \<lparr> paths = map (\<lambda>(p, n). (p, compile_path p n)) leaves,
                   dependencies = g \<rparr>)"

text \<open>
  The \<open>requires\<close> edges a schema declares, read off the schema itself: one edge from
  each leaf's path to each entry of its \<^verbatim>\<open>dependsOn\<close>.
\<close>

definition schema_requires :: "SchemaDefinition \<Rightarrow> (string \<times> string) list" where
  "schema_requires sch =
     concat (map (\<lambda>(p, n). map (\<lambda>d. (p, d)) (dependsOn n)) (walk_entries [] sch))"

section \<open>Secret masking\<close>

text \<open>The schema entry found along a path of keys.\<close>

fun schema_at :: "schema_entry \<Rightarrow> string list \<Rightarrow> schema_entry option" where
  "schema_at d [] = Some d"
| "schema_at (Definition es) (k # ks) =
     (case map_of es k of None \<Rightarrow> None | Some d \<Rightarrow> schema_at d ks)"
| "schema_at (Node n) (k # ks) = None"

lemma map_of_size_less:
  "map_of es k = Some d \<Longrightarrow> size d < size_list (size_prod (\<lambda>x. 0) size) es"
  by (induction es) (auto split: if_splits)

text \<open>
  Modelled from the spec: the masking behind \<^verbatim>\<open>ConfigResult.safeConfig\<close> (the
  repository declares the field only). The value of a field whose schema node has
  \<^verbatim>\<open>secret: true\<close> is replaced by a fixed redaction marker; the spec does not say
  which, so the marker is a parameter. Values the schema does not describe are kept.
\<close>

function mask_node :: "jsval \<Rightarrow> schema_entry \<Rightarrow> jsval \<Rightarrow> jsval"
  and mask_props ::
    "jsval \<Rightarrow> (string \<times> schema_entry) list \<Rightarrow> (string \<times> jsval) list \<Rightarrow> (string \<times> jsval) list"
  where
  "mask_node m (Node n) v = (if secret n then m else v)"
| "mask_node m (Definition es) v =
     (case v of
        JObj ps \<Rightarrow> JObj (mask_props m es ps)
      | JCreated ps proto \<Rightarrow> JCreated (mask_props m es ps) proto
      | _ \<Rightarrow> v)"
| "mask_props m es [] = []"
| "mask_props m es ((k, v) # ps) =
     (k, case map_of es k of None \<Rightarrow> v | Some d \<Rightarrow> mask_node m d v) # mask_props m es ps"
  by pat_completeness auto

termination
  by (relation "measures [\<lambda>x. case x of Inl (m, d, v) \<Rightarrow> size d
                                        | Inr (m, es, ps) \<Rightarrow>
                                            size_list (size_prod (\<lambda>x. 0) size) es,
                          \<lambda>x. case x of Inl (m, d, v) \<Rightarrow> 0
                                        | Inr (m, es, ps) \<Rightarrow> Suc (length ps)]")
     (auto dest: map_of_size_less)

text \<open>
  Modelled from the spec: the three configuration views of \<^verbatim>\<open>ConfigResult\<close> (the
  repository declares the interface only). \<open>rawConfig\<close> is the input as loaded,
  \<open>config\<close> the configuration after defaults and transforms (taken as given here), and
  \<open>safeConfig\<close> is \<open>config\<close> with the secrets masked.
\<close>

definition config_result :: "jsval \<Rightarrow> SchemaDefinition \<Rightarrow> jsval \<Rightarrow> jsval \<Rightarrow> ConfigResult" where
  "config_result marker sch raw cfg =
     \<lparr> config = cfg, safeConfig = mask_node marker (Definition sch) cfg, rawConfig = raw \<rparr>"

section \<open>The example schema of the README and an initial ambient state\<close>

definition db_schema :: jsval where
  "db_schema =
     JObj [(''db'',
            JObj [(''host'', JObj [(''type'', JStr ''string''), (''required'', JBool True)]),
                  (''port'', JObj [(''type'', JStr ''number''), (''default'', JNum 5432)])])]"

text \<open>
  A fresh process: nothing in the environment, the standard \<^verbatim>\<open>console.log\<close>,
  nothing logged, nothing added to a built-in prototype.
\<close>

definition initial_world :: world where
  "initial_world =
     \<lparr> proc_env = Map.empty, console_log = Logs, console = [],
       prototype_props = (\<lambda>b. []) \<rparr>"

text \<open>The same process after \<^verbatim>\<open>Object.prototype.debug = true\<close>.\<close>

definition polluted_world :: world where
  "polluted_world =
     initial_world\<lparr>prototype_props :=
                     (\<lambda>b. if b = ObjectPrototype then [(''debug'', JBool True)] else [])\<rparr>"

text \<open>The same process after \<^verbatim>\<open>console.log\<close> was replaced by a function that throws
  \<^verbatim>\<open>new Error('console is closed')\<close>, and by one that throws \<^verbatim>\<open>null\<close>.\<close>

definition failing_console_world :: world where
  "failing_console_world =
     initial_world\<lparr>console_log := Throws (ThrownError ''console is closed'')\<rparr>"

definition null_throwing_world :: world where
  "null_throwing_world = initial_world\<lparr>console_log := Throws ThrownNull\<rparr>"

text \<open>A process that differs from the fresh one in its environment and its log only.\<close>

definition busy_world :: world where
  "busy_world =
     initial_world\<lparr>proc_env := [''NODE_ENV'' \<mapsto> ''test''],
                    console := [''Validating schema...'']\<rparr>"

definition no_options :: SafeCfgOptions where
  "no_options = \<lparr> environment = NotSet, strict = NotSet \<rparr>"

definition production_options :: SafeCfgOptions where
  "production_options = \<lparr> environment = SetTo ''production'', strict = NotSet \<rparr>"

definition leaf :: "field_type \<Rightarrow> string list \<Rightarrow> SchemaNode" where
  "leaf t deps = \<lparr> type = t, required = False, default_value = None, secret = False,
                   dependsOn = deps, conflictsWith = [] \<rparr>"

definition cyclic_schema :: SchemaDefinition where
  "cyclic_schema =
     [(''cache'', Definition [(''url'', Node (leaf TString [''db.host''])),
                              (''ttl'', Node (leaf TNumber []))]),
      (''db'', Definition [(''host'', Node (leaf TString [''cache.url'']))])]"

definition secret_schema :: SchemaDefinition where
  "secret_schema =
     [(''db'', Definition [(''host'', Node (leaf TString [])),
                           (''password'', Node ((leaf TString [])\<lparr>secret := True\<rparr>))])]"

section \<open>Invariants of the traversal\<close>

definition req :: "DependencyGraph \<Rightarrow> (string \<times> string) set" where
  "req g = {(f, t). (f, t, Requires) \<in> set g}"

fun exits :: "frame list \<Rightarrow> string list" where
  "exits [] = []"
| "exits (Exit v # st) = v # exits st"
| "exits (Enter v # st) = exits st"

fun reach_ok :: "(string \<times> string) set \<Rightarrow> frame list \<Rightarrow> bool" where
  "reach_ok E [] = True"
| "reach_ok E (f # st) = ((\<forall>e \<in> set (exits st). (e, frame_node f) \<in> E\<^sup>+) \<and> reach_ok E st)"

fun succs_covered ::
  "(string \<times> string) set \<Rightarrow> string set \<Rightarrow> string set \<Rightarrow> frame list \<Rightarrow> bool" where
  "succs_covered E B A [] = True"
| "succs_covered E B A (Enter u # st) = succs_covered E B (insert u A) st"
| "succs_covered E B A (Exit v # st) =
     ((\<forall>u. (v, u) \<in> E \<longrightarrow> u \<in> B \<or> u \<in> A) \<and> succs_covered E B (insert v A) st)"

definition dfs_inv :: "DependencyGraph \<Rightarrow> frame list \<Rightarrow> string list \<Rightarrow> string list \<Rightarrow> bool" where
  "dfs_inv g st gray black \<longleftrightarrow>
     reach_ok (req g) st \<and>
     succs_covered (req g) (set black) {} st \<and>
     distinct (exits st) \<and>
     set gray = set (exits st) \<and>
     set (exits st) \<inter> set black = {} \<and>
     (\<forall>b \<in> set black. \<forall>u. (b, u) \<in> req g \<longrightarrow> u \<in> set black) \<and>
     (\<forall>b \<in> set black. (b, b) \<notin> (req g)\<^sup>+)"

text \<open>What the \<^verbatim>\<open>catch\<close> block of \<^verbatim>\<open>load\<close> makes of a thrown value; used to state
  the lemmas below.\<close>

definition caught :: "thrown \<Rightarrow> ValidationResult promise" where
  "caught e =
     (case read_message e of
        Inr m \<Rightarrow> Resolved \<lparr> valid = False, errors = [''Validation failed: '' @ m],
                            warnings = [] \<rparr>
      | Inl e' \<Rightarrow> Rejected e')"

section \<open>Properties of load\<close>

text \<open>A property read depends on the built-in prototypes only.\<close>

lemma inherited_debug_agree:
  "prototype_props w1 = prototype_props w2 \<Longrightarrow> inherited_debug w1 bs = inherited_debug w2 bs"
  by (induction bs) (simp_all split: option.splits)

lemma debug_member_agree:
  "prototype_props w1 = prototype_props w2 \<Longrightarrow> debug_member w1 v = debug_member w2 v"
proof (induction v)
  case (JCreated ps proto)
  then show ?case by (simp split: option.splits)
qed (simp_all add: inherited_debug_agree [of w1 w2] split: option.splits)

lemma read_debug_agree:
  "prototype_props w1 = prototype_props w2 \<Longrightarrow> read_debug w1 v = read_debug w2 v"
proof -
  assume "prototype_props w1 = prototype_props w2"
  then have "debug_member w1 v = debug_member w2 v" by (rule debug_member_agree)
  then show ?thesis by (cases v) (simp_all del: debug_member.simps)
qed

lemma read_debug_after_log: "read_debug (w\<lparr>console := c\<rparr>) v = read_debug w v"
  by (rule read_debug_agree) simp

lemma read_debug_throws_error: "read_debug w v = Inl e \<Longrightarrow> \<exists>m. e = ThrownError m"
  by (cases v) auto

lemma read_debug_object: "is_object cfg \<Longrightarrow> read_debug w cfg = Inr (debug_member w cfg)"
  by (cases cfg) simp_all

lemma load_try_completion_cases:
  "completion (load_try this w cfg ws) =
     (case console_log w of
        Throws e \<Rightarrow> Inl e
      | Logs \<Rightarrow>
          if environment (options this) = SetTo ''production''
          then (case read_debug w cfg of Inl e \<Rightarrow> Inl e | Inr d \<Rightarrow> Inr ())
          else Inr ())"
  by (simp add: load_try_def validateSchema_def validateForProduction_def
        read_debug_after_log split: sum.splits log_behaviour.splits)

lemma load_try_object_completes:
  "is_object cfg \<Longrightarrow> console_log w = Logs \<Longrightarrow> completion (load_try this w cfg ws) = Inr ()"
  by (simp add: load_try_completion_cases read_debug_object)

lemma load_settled_cases:
  "settled (load this w cfg) =
     (case console_log w of
        Throws e \<Rightarrow> caught e
      | Logs \<Rightarrow>
          if environment (options this) = SetTo ''production''
          then (case read_debug w cfg of
                  Inl e \<Rightarrow> caught e
                | Inr d \<Rightarrow>
                    Resolved \<lparr> valid = True, errors = [],
                               warnings = (if d = JBool True then [''Debug mode is enabled in production environment''] else []) \<rparr>)
          else Resolved \<lparr> valid = True, errors = [], warnings = [] \<rparr>)"
  by (simp add: load_def Let_def load_try_def validateSchema_def validateForProduction_def
        caught_def read_debug_after_log split: sum.splits log_behaviour.splits)

lemma caught_Resolved:
  "caught e = Resolved r \<Longrightarrow> \<not> valid r \<and> length (errors r) = 1 \<and> warnings r = []"
  by (cases e) (auto simp: caught_def)

lemma load_config_left: "config_left (load this w cfg) = cfg"
  by (simp add: load_def Let_def load_try_def validateSchema_def validateForProduction_def
        split: sum.splits log_behaviour.splits)

lemma load_world_left:
  "world_left (load this w cfg) =
     (case console_log w of
        Logs \<Rightarrow> w\<lparr>console := console w @ [''Validating schema...'']\<rparr>
      | Throws e \<Rightarrow> w)"
  by (simp add: load_def Let_def load_try_def validateSchema_def validateForProduction_def
        split: sum.splits log_behaviour.splits)

lemma new_SafeCfg_environment:
  "environment (options (new_SafeCfg w sch opts)) =
     (case environment opts of
        NotSet \<Rightarrow> SetTo (node_env_or_development w)
      | SetUndefined \<Rightarrow> SetUndefined
      | SetTo e \<Rightarrow> SetTo e)"
  by (cases "environment opts") (simp_all add: new_SafeCfg_def)

lemma production_instance:
  "environment (options (new_SafeCfg w sch production_options)) = SetTo ''production''"
  by (simp add: new_SafeCfg_def production_options_def)

lemma default_instance_initial_world:
  "environment (options (new_SafeCfg initial_world sch no_options)) = SetTo ''development''"
  by (simp add: new_SafeCfg_def no_options_def initial_world_def node_env_or_development_def)

lemma initial_world_simps:
  "console_log initial_world = Logs"
  "prototype_props initial_world b = []"
  by (simp_all add: initial_world_def)

text \<open>
  An \<^verbatim>\<open>Error\<close> raised inside \<^verbatim>\<open>try\<close> is turned into the one synthetic entry.
\<close>

lemma load_catches_errors:
  "completion (load_try this w cfg []) = Inl (ThrownError m) \<Longrightarrow>
     settled (load this w cfg) =
       Resolved \<lparr> valid = False, errors = [''Validation failed: '' @ m], warnings = [] \<rparr>"
  by (auto simp: load_settled_cases load_try_completion_cases caught_def
        split: log_behaviour.splits if_splits sum.splits)

text \<open>
  C1. For every instance (any schema, any options) and every ambient state: whenever
  no exception is raised inside \<^verbatim>\<open>load\<close>, it resolves to a result with \<open>valid\<close>
  true and no errors. The schema is not consulted. No exception is raised, in
  particular, for a non-null object when \<^verbatim>\<open>console.log\<close> is the standard one.
\<close>

theorem load_object_always_valid:
  "(is_object cfg \<and> console_log w = Logs \<longrightarrow>
      completion (load_try this w cfg []) = Inr ()) \<and>
   (completion (load_try this w cfg []) = Inr () \<longrightarrow>
      (\<exists>r. settled (load this w cfg) = Resolved r \<and> valid r \<and> errors r = []))"
proof (intro conjI impI)
  assume "is_object cfg \<and> console_log w = Logs"
  then show "completion (load_try this w cfg []) = Inr ()"
    by (simp add: load_try_object_completes)
next
  assume "completion (load_try this w cfg []) = Inr ()"
  then show "\<exists>r. settled (load this w cfg) = Resolved r \<and> valid r \<and> errors r = []"
    by (auto simp: load_settled_cases load_try_completion_cases
          split: sum.splits if_splits log_behaviour.splits)
qed

theorem load_object_always_valid_witness:
  "is_object (JObj [(''port'', JStr ''not a number'')]) \<and>
   console_log initial_world = Logs \<and>
   completion
     (load_try \<lparr> schema = JObj [(''port'', JObj [(''type'', JStr ''number''),
                                                  (''required'', JBool True)])],
                 options = production_options \<rparr>
        initial_world (JObj [(''port'', JStr ''not a number'')]) []) = Inr () \<and>
   (\<exists>r. settled
          (load \<lparr> schema = JObj [(''port'', JObj [(''type'', JStr ''number''),
                                                   (''required'', JBool True)])],
                  options = production_options \<rparr>
             initial_world (JObj [(''port'', JStr ''not a number'')])) = Resolved r \<and>
        valid r \<and> errors r = [])"
  using load_object_always_valid
          [of "JObj [(''port'', JStr ''not a number'')]" initial_world
              "\<lparr> schema = JObj [(''port'', JObj [(''type'', JStr ''number''),
                                                   (''required'', JBool True)])],
                  options = production_options \<rparr>"]
  by (simp add: initial_world_simps)

text \<open>
  C2. Every result \<^verbatim>\<open>load\<close> resolves to has \<open>valid\<close> true exactly when its
  \<open>errors\<close> list records no entry; the \<open>warnings\<close> list plays no part. (In
  \<^verbatim>\<open>SafeCfg.ts\<close> the entries are strings; every entry of \<open>errors\<close> is an error
  and every entry of \<open>warnings\<close> a warning.)
\<close>

theorem load_valid_iff_no_errors:
  "settled (load this w cfg) = Resolved r \<Longrightarrow> valid r = (errors r = [])"
  by (auto simp: load_settled_cases
        split: sum.splits if_splits log_behaviour.splits dest: caught_Resolved)

theorem load_valid_iff_no_errors_witness:
  "settled (load (new_SafeCfg initial_world db_schema production_options) initial_world JNull) =
     Resolved \<lparr> valid = False,
                errors = [''Validation failed: Cannot read properties of null (reading 'debug')''],
                warnings = [] \<rparr> \<and>
   valid \<lparr> valid = False,
           errors = [''Validation failed: Cannot read properties of null (reading 'debug')''],
           warnings = [] \<rparr> =
     (errors \<lparr> valid = False,
               errors = [''Validation failed: Cannot read properties of null (reading 'debug')''],
               warnings = [] \<rparr> = [])"
proof -
  have h: "settled (load (new_SafeCfg initial_world db_schema production_options)
                      initial_world JNull) =
             Resolved \<lparr> valid = False,
                        errors = [''Validation failed: Cannot read properties of null (reading 'debug')''],
                        warnings = [] \<rparr>"
    by (simp add: load_settled_cases production_instance initial_world_simps caught_def)
  from load_valid_iff_no_errors [OF h] h show ?thesis by simp
qed




text \<open>
  C5 fails on the code. The claim: whenever an exception is raised inside
  \<^verbatim>\<open>load\<close>, the promise still resolves, to an invalid result with one synthetic
  error and no warnings. The code: when the value thrown is \<^verbatim>\<open>null\<close>, the
  \<^verbatim>\<open>catch\<close> block itself throws on \<^verbatim>\<open>error.message\<close> and the promise is
  rejected.
\<close>

theorem load_rejects_on_thrown_null:
  "completion (load_try (new_SafeCfg initial_world db_schema no_options)
                 null_throwing_world (JObj []) []) = Inl ThrownNull \<and>
   settled (load (new_SafeCfg initial_world db_schema no_options)
              null_throwing_world (JObj [])) =
     Rejected (ThrownError ''Cannot read properties of null (reading 'message')'')"
  by (simp add: load_settled_cases load_try_completion_cases null_throwing_world_def
        caught_def)

text \<open>
  C9, as the specification states it, fails: for one instance and one configuration
  the result differs between a fresh process, one in which \<^verbatim>\<open>Object.prototype\<close>
  was given \<^verbatim>\<open>debug: true\<close>, and one in which \<^verbatim>\<open>console.log\<close> throws.
\<close>

theorem load_ambient_state_counterexample:
  "settled (load (new_SafeCfg initial_world db_schema production_options)
              initial_world (JObj [])) =
     Resolved \<lparr> valid = True, errors = [], warnings = [] \<rparr> \<and>
   settled (load (new_SafeCfg initial_world db_schema production_options)
              polluted_world (JObj [])) =
     Resolved \<lparr> valid = True, errors = [], warnings = [''Debug mode is enabled in production environment''] \<rparr> \<and>
   settled (load (new_SafeCfg initial_world db_schema production_options)
              failing_console_world (JObj [])) =
     Resolved \<lparr> valid = False, errors = [''Validation failed: console is closed''],
                warnings = [] \<rparr>"
  by (simp add: load_settled_cases production_instance initial_world_def polluted_world_def
        failing_console_world_def caught_def)

text \<open>
  C9, amended. For a fixed instance and configuration the result of \<^verbatim>\<open>load\<close> is
  the same in any two ambient states in which \<^verbatim>\<open>console.log\<close> behaves the same and
  the built-in prototypes carry the same added properties; it does not depend on the
  process environment or on what was logged. In particular a second call, made in the
  state the first one leaves behind and with the same configuration, settles as the
  first did.
\<close>

theorem load_result_independent_of_world:
  "(console_log w1 = console_log w2 \<and> prototype_props w1 = prototype_props w2 \<longrightarrow>
      settled (load this w1 cfg) = settled (load this w2 cfg)) \<and>
   settled (load this (world_left (load this w1 cfg)) (config_left (load this w1 cfg))) =
     settled (load this w1 cfg)"
proof (intro conjI impI)
  assume a: "console_log w1 = console_log w2 \<and> prototype_props w1 = prototype_props w2"
  then have "read_debug w1 cfg = read_debug w2 cfg"
    by (intro read_debug_agree) simp
  with a show "settled (load this w1 cfg) = settled (load this w2 cfg)"
    by (simp only: load_settled_cases)
next
  show "settled (load this (world_left (load this w1 cfg)) (config_left (load this w1 cfg))) =
          settled (load this w1 cfg)"
  proof (cases "console_log w1")
    case Logs
    then show ?thesis
      by (simp add: load_settled_cases load_config_left load_world_left read_debug_after_log)
  next
    case (Throws e)
    then show ?thesis
      by (simp add: load_settled_cases load_config_left load_world_left)
  qed
qed

theorem load_result_independent_of_world_witness:
  "console_log initial_world = console_log busy_world \<and>
   prototype_props initial_world = prototype_props busy_world \<and>
   proc_env initial_world ''NODE_ENV'' \<noteq> proc_env busy_world ''NODE_ENV'' \<and>
   console initial_world \<noteq> console busy_world \<and>
   settled (load (new_SafeCfg initial_world db_schema production_options) initial_world
              (JObj [(''debug'', JBool True)])) =
     settled (load (new_SafeCfg initial_world db_schema production_options) busy_world
                (JObj [(''debug'', JBool True)]))"
  using load_result_independent_of_world
          [of initial_world busy_world
              "new_SafeCfg initial_world db_schema production_options"
              "JObj [(''debug'', JBool True)]"]
  by (simp add: busy_world_def initial_world_def)

text \<open>
  C10. \<^verbatim>\<open>load\<close> leaves the configuration it was given exactly as it was, nested
  values included, and so do \<^verbatim>\<open>validateSchema\<close> and \<^verbatim>\<open>validateForProduction\<close>,
  whether or not they throw.
\<close>

theorem load_leaves_config_unchanged:
  "config_left (load this w cfg) = cfg \<and>
   fst (snd (validateForProduction w cfg ws)) = cfg \<and>
   snd (snd (validateSchema w cfg)) = cfg"
  by (simp add: load_config_left validateForProduction_def validateSchema_def
        split: sum.splits log_behaviour.splits)

text \<open>
  C3, as the specification states it, fails: for the example schema and the
  configuration \<^verbatim>\<open>{db:{}}\<close> the result is valid and records no error.
\<close>

theorem required_field_example_counterexample:
  "settled (load (new_SafeCfg initial_world db_schema no_options) initial_world
              (JObj [(''db'', JObj [])])) =
     Resolved \<lparr> valid = True, errors = [], warnings = [] \<rparr>"
  by (simp add: load_settled_cases default_instance_initial_world initial_world_simps)

text \<open>
  C3, amended. For the example schema and the configuration \<^verbatim>\<open>{db:{}}\<close>, whatever
  the options, \<^verbatim>\<open>load\<close> resolves to a result with \<open>valid\<close> true and no error
  whenever the \<^verbatim>\<open>console.log\<close> call of \<^verbatim>\<open>validateSchema\<close> returns:
  \<^verbatim>\<open>validateSchema\<close> is a placeholder and the missing required field
  \<^verbatim>\<open>db.host\<close> is not reported. The result has no warning either, unless the
  environment is production and \<^verbatim>\<open>Object.prototype\<close> has been given
  \<^verbatim>\<open>debug: true\<close>.
\<close>

theorem required_field_example_accepted:
  "schema this = db_schema \<Longrightarrow> console_log w = Logs \<Longrightarrow>
     settled (load this w (JObj [(''db'', JObj [])])) =
       Resolved \<lparr> valid = True, errors = [],
                  warnings =
                    (if environment (options this) = SetTo ''production'' \<and>
                        inherited_debug w [ObjectPrototype] = JBool True
                     then [''Debug mode is enabled in production environment''] else []) \<rparr>"
  by (simp add: load_settled_cases)

theorem required_field_example_accepted_witness:
  "schema (new_SafeCfg initial_world db_schema production_options) = db_schema \<and>
   console_log initial_world = Logs \<and>
   settled (load (new_SafeCfg initial_world db_schema production_options) initial_world
              (JObj [(''db'', JObj [])])) =
     Resolved \<lparr> valid = True, errors = [], warnings = [] \<rparr>"
proof -
  have a: "schema (new_SafeCfg initial_world db_schema production_options) = db_schema"
    by (simp add: new_SafeCfg_def)
  have b: "console_log initial_world = Logs" by (simp add: initial_world_simps)
  from required_field_example_accepted [OF a b] a b show ?thesis
    by (simp add: initial_world_simps)
qed

text \<open>
  C6, as the specification states it, fails: for the example schema and the
  configuration \<^verbatim>\<open>{db:{host:'localhost'}}\<close> the result is valid, but it carries no
  configuration, and in the configuration as \<^verbatim>\<open>load\<close> leaves it
  \<^verbatim>\<open>db.port\<close> is still undefined, not 5432.
\<close>

theorem default_example_counterexample:
  "settled (load (new_SafeCfg initial_world db_schema no_options) initial_world
              (JObj [(''db'', JObj [(''host'', JStr ''localhost'')])])) =
     Resolved \<lparr> valid = True, errors = [], warnings = [] \<rparr> \<and>
   path_lookup
     (config_left (load (new_SafeCfg initial_world db_schema no_options) initial_world
                     (JObj [(''db'', JObj [(''host'', JStr ''localhost'')])])))
     [''db'', ''port''] = None"
  by (simp add: load_settled_cases load_config_left default_instance_initial_world
        initial_world_simps)

text \<open>
  C6, amended. For every schema and every object configuration in which a field is
  absent, no default is substituted: the field is still absent from the configuration
  after \<^verbatim>\<open>load\<close>. And whenever the \<^verbatim>\<open>console.log\<close> call of
  \<^verbatim>\<open>validateSchema\<close> returns, \<^verbatim>\<open>load\<close> resolves to a valid result that records no
  error at all (so no \<^verbatim>\<open>REQUIRED_FIELD_MISSING\<close>).
\<close>

theorem absent_field_stays_absent:
  "cfg = JObj ps \<Longrightarrow> path_lookup cfg p = None \<Longrightarrow>
     (console_log w = Logs \<longrightarrow>
        (\<exists>r. settled (load this w cfg) = Resolved r \<and> valid r \<and> errors r = [])) \<and>
     path_lookup (config_left (load this w cfg)) p = None"
  by (simp add: load_settled_cases load_config_left)

theorem absent_field_stays_absent_witness:
  "path_lookup (JObj [(''db'', JObj [(''host'', JStr ''localhost'')])]) [''db'', ''port''] = None \<and>
   console_log initial_world = Logs \<and>
   (\<exists>r. settled (load (new_SafeCfg initial_world db_schema no_options) initial_world
                    (JObj [(''db'', JObj [(''host'', JStr ''localhost'')])])) = Resolved r \<and>
        valid r \<and> errors r = []) \<and>
   path_lookup
     (config_left (load (new_SafeCfg initial_world db_schema no_options) initial_world
                     (JObj [(''db'', JObj [(''host'', JStr ''localhost'')])])))
     [''db'', ''port''] = None"
  using absent_field_stays_absent
          [OF refl, of "[(''db'', JObj [(''host'', JStr ''localhost'')])]" "[''db'', ''port'']"
              initial_world "new_SafeCfg initial_world db_schema no_options"]
  by (simp add: initial_world_simps)

section \<open>Correctness of the cycle search\<close>

lemma getDependencies_iff: "u \<in> set (getDependencies g v) \<longleftrightarrow> (v, u) \<in> req g"
  by (force simp: getDependencies_def req_def)

lemma exits_append: "exits (xs @ ys) = exits xs @ exits ys"
  by (induction xs rule: exits.induct) auto

lemma exits_map_Enter: "exits (map Enter xs) = []"
  by (induction xs) auto

lemma reach_ok_enters:
  assumes "\<forall>u \<in> set us. \<forall>e \<in> set (exits st). (e, u) \<in> E\<^sup>+" and "reach_ok E st"
  shows "reach_ok E (map Enter us @ st)"
  using assms by (induction us) (auto simp: exits_append exits_map_Enter)

lemma succs_covered_mono:
  "succs_covered E B A st \<Longrightarrow> A \<subseteq> A' \<Longrightarrow> B \<subseteq> B' \<Longrightarrow> succs_covered E B' A' st"
proof (induction E B A st arbitrary: A' rule: succs_covered.induct)
  case (1 E B A)
  then show ?case by simp
next
  case (2 E B A u st)
  from 2(2) have "succs_covered E B (insert u A) st" by simp
  then have "succs_covered E B' (insert u A') st"
    using 2(3,4) by (intro 2(1)) auto
  then show ?case by simp
next
  case (3 E B A v st)
  from 3(2) have h: "\<forall>u. (v, u) \<in> E \<longrightarrow> u \<in> B \<or> u \<in> A" "succs_covered E B (insert v A) st"
    by simp_all
  have "succs_covered E B' (insert v A') st"
    using h(2) 3(3,4) by (intro 3(1)) auto
  moreover have "\<forall>u. (v, u) \<in> E \<longrightarrow> u \<in> B' \<or> u \<in> A'"
    using h(1) 3(3,4) by blast
  ultimately show ?case by simp
qed

lemma succs_covered_blacken:
  "succs_covered E B (insert v A) st \<Longrightarrow> succs_covered E (insert v B) A st"
proof (induction st arbitrary: A)
  case Nil
  then show ?case by simp
next
  case (Cons f st)
  show ?case
  proof (cases f)
    case (Enter u)
    with Cons.prems have "succs_covered E B (insert v (insert u A)) st"
      by (simp add: insert_commute)
    then have "succs_covered E (insert v B) (insert u A) st" by (rule Cons.IH)
    with Enter show ?thesis by simp
  next
    case (Exit w)
    with Cons.prems have h: "\<forall>u. (w, u) \<in> E \<longrightarrow> u \<in> B \<or> u \<in> insert v A"
      "succs_covered E B (insert v (insert w A)) st"
      by (simp_all add: insert_commute)
    from h(2) have "succs_covered E (insert v B) (insert w A) st" by (rule Cons.IH)
    moreover from h(1) have "\<forall>u. (w, u) \<in> E \<longrightarrow> u \<in> insert v B \<or> u \<in> A" by blast
    ultimately show ?thesis using Exit by simp
  qed
qed

lemma succs_covered_enters:
  "succs_covered E B A (map Enter us @ st) = succs_covered E B (set us \<union> A) st"
  by (induction us arbitrary: A) (auto simp: insert_commute Un_insert_left [symmetric] simp del: Un_insert_left)

lemma closed_trancl_in:
  assumes closed: "\<forall>b \<in> B. \<forall>u. (b, u) \<in> E \<longrightarrow> u \<in> B"
    and path: "(x, y) \<in> E\<^sup>+" and first: "\<forall>u. (x, u) \<in> E \<longrightarrow> u \<in> B"
  shows "y \<in> B"
  using path first
proof (induction rule: trancl_induct)
  case (base y)
  then show ?case by blast
next
  case (step y z)
  then show ?case using closed by blast
qed

lemma dfs_inv_exit:
  assumes "dfs_inv g (Exit v # st) gray black"
  shows "dfs_inv g st (removeAll v gray) (v # black)"
proof -
  let ?E = "req g"
  from assms have
    r: "reach_ok ?E st" and
    top: "\<forall>u. (v, u) \<in> ?E \<longrightarrow> u \<in> set black" and
    sc: "succs_covered ?E (set black) {v} st" and
    d: "v \<notin> set (exits st)" "distinct (exits st)" and
    gr: "set gray = insert v (set (exits st))" and
    disj: "v \<notin> set black" "set (exits st) \<inter> set black = {}" and
    closed: "\<forall>b \<in> set black. \<forall>u. (b, u) \<in> ?E \<longrightarrow> u \<in> set black" and
    acyc: "\<forall>b \<in> set black. (b, b) \<notin> ?E\<^sup>+"
    by (simp_all add: dfs_inv_def)
  have vb: "v \<notin> set black" using disj by simp
  have "(v, v) \<notin> ?E\<^sup>+"
    using closed_trancl_in [OF closed _ top] vb by blast
  moreover have "succs_covered ?E (set (v # black)) {} st"
    using succs_covered_blacken [OF sc] by simp
  moreover have "set (removeAll v gray) = set (exits st)"
    using gr d by auto
  ultimately show ?thesis
    using r d gr disj closed acyc top by (auto simp: dfs_inv_def)
qed

lemma dfs_inv_black:
  assumes "dfs_inv g (Enter v # st) gray black" and "v \<in> set black"
  shows "dfs_inv g st gray black"
proof -
  from assms(1) have "succs_covered (req g) (set black) {v} st"
    by (simp add: dfs_inv_def)
  then have "succs_covered (req g) (insert v (set black)) {} st"
    by (rule succs_covered_blacken)
  then have "succs_covered (req g) (set black) {} st"
    using assms(2) by (simp add: insert_absorb)
  then show ?thesis using assms(1) by (simp add: dfs_inv_def)
qed

lemma dfs_inv_white:
  assumes inv: "dfs_inv g (Enter v # st) gray black"
    and nb: "v \<notin> set black" and ng: "v \<notin> set gray"
  shows "dfs_inv g (map Enter (getDependencies g v) @ Exit v # st) (v # gray) black"
proof -
  let ?E = "req g" and ?us = "getDependencies g v"
  from inv have
    rv: "\<forall>e \<in> set (exits st). (e, v) \<in> ?E\<^sup>+" and
    r: "reach_ok ?E st" and
    sc: "succs_covered ?E (set black) {v} st" and
    d: "distinct (exits st)" and
    gr: "set gray = set (exits st)" and
    disj: "set (exits st) \<inter> set black = {}" and
    rest: "(\<forall>b \<in> set black. \<forall>u. (b, u) \<in> ?E \<longrightarrow> u \<in> set black) \<and>
           (\<forall>b \<in> set black. (b, b) \<notin> ?E\<^sup>+)"
    by (simp_all add: dfs_inv_def)
  have r1: "reach_ok ?E (Exit v # st)" using rv r by simp
  have "\<forall>u \<in> set ?us. \<forall>e \<in> set (exits (Exit v # st)). (e, u) \<in> ?E\<^sup>+"
  proof (intro ballI)
    fix u e assume u: "u \<in> set ?us" and e: "e \<in> set (exits (Exit v # st))"
    from u have vu: "(v, u) \<in> ?E" by (simp add: getDependencies_iff)
    show "(e, u) \<in> ?E\<^sup>+"
    proof (cases "e = v")
      case True
      then show ?thesis using vu by blast
    next
      case False
      with e rv have "(e, v) \<in> ?E\<^sup>+" by simp
      then show ?thesis using vu by (rule trancl_into_trancl)
    qed
  qed
  then have R: "reach_ok ?E (map Enter ?us @ Exit v # st)"
    using r1 by (rule reach_ok_enters)
  have "succs_covered ?E (set black) (insert v (set ?us)) st"
    using sc by (rule succs_covered_mono) auto
  then have S: "succs_covered ?E (set black) {} (map Enter ?us @ Exit v # st)"
    by (simp add: succs_covered_enters getDependencies_iff)
  have X: "exits (map Enter ?us @ Exit v # st) = v # exits st"
    by (simp add: exits_append exits_map_Enter)
  show ?thesis
    unfolding dfs_inv_def X using R S d gr disj rest nb ng by auto
qed

lemma dfs_inv_gray_cycle:
  assumes "dfs_inv g (Enter v # st) gray black" and "v \<in> set gray"
  shows "(v, v) \<in> (req g)\<^sup>+"
  using assms by (simp add: dfs_inv_def)

lemma dfs_cycle_sound:
  "dfs_inv g st gray black \<Longrightarrow> dfs_cycle g st gray black = Some m \<Longrightarrow> (m, m) \<in> (req g)\<^sup>+"
proof (induction g st gray black rule: dfs_cycle.induct)
  case (1 g gray black)
  then show ?case by simp
next
  case (2 g v st gray black)
  then show ?case by (simp add: dfs_inv_exit)
next
  case (3 g v st gray black)
  then show ?case
    by (auto simp: dfs_inv_black dfs_inv_white dfs_inv_gray_cycle split: if_splits)
qed

lemma dfs_cycle_complete:
  "dfs_inv g st gray black \<Longrightarrow> dfs_cycle g st gray black = None \<Longrightarrow>
     x \<in> set black \<union> frame_node ` set st \<Longrightarrow> (x, x) \<notin> (req g)\<^sup>+"
proof (induction g st gray black rule: dfs_cycle.induct)
  case (1 g gray black)
  then show ?case by (simp add: dfs_inv_def)
next
  case (2 g v st gray black)
  from 2(2) have "dfs_inv g st (removeAll v gray) (v # black)" by (rule dfs_inv_exit)
  moreover from 2(3) have "dfs_cycle g st (removeAll v gray) (v # black) = None" by simp
  moreover from 2(4) have "x \<in> set (v # black) \<union> frame_node ` set st" by auto
  ultimately show ?case by (rule 2(1))
next
  case (3 g v st gray black)
  show ?case
  proof (cases "v \<in> set black")
    case True
    with 3(3) have "dfs_inv g st gray black" by (simp add: dfs_inv_black)
    moreover from 3(4) True have "dfs_cycle g st gray black = None" by simp
    moreover from 3(5) True have "x \<in> set black \<union> frame_node ` set st" by auto
    ultimately show ?thesis using True by (intro 3(1))
  next
    case False
    with 3(4) have ng: "v \<notin> set gray" by (auto split: if_splits)
    let ?st = "map Enter (getDependencies g v) @ Exit v # st"
    from 3(3) False ng have "dfs_inv g ?st (v # gray) black" by (simp add: dfs_inv_white)
    moreover from 3(4) False ng have "dfs_cycle g ?st (v # gray) black = None" by simp
    moreover from 3(5) have "x \<in> set black \<union> frame_node ` set ?st" by auto
    ultimately show ?thesis using False ng by (intro 3(2))
  qed
qed

lemma dfs_inv_initial: "dfs_inv g (map Enter xs) [] []"
  by (simp add: dfs_inv_def exits_map_Enter reach_ok_enters [of xs "[]", simplified]
        succs_covered_enters [of _ _ _ xs "[]", simplified])


section \<open>Properties of the schema compiler\<close>

lemma req_addDependency:
  "req (addDependency g f t k) = (if k = Requires then insert (f, t) (req g) else req g)"
  by (auto simp: req_def addDependency_def)

lemma req_fold_requires:
  "req (fold (\<lambda>d g'. addDependency g' p d Requires) ds g) = req g \<union> {p} \<times> set ds"
  by (induction ds arbitrary: g) (auto simp: req_addDependency)

lemma req_fold_conflicts:
  "req (fold (\<lambda>c g'. addDependency g' p c Conflicts) cs g) = req g"
  by (induction cs arbitrary: g) (auto simp: req_addDependency)

lemma req_add_node_edges: "req (add_node_edges p n g) = req g \<union> {p} \<times> set (dependsOn n)"
  by (simp add: add_node_edges_def req_fold_conflicts req_fold_requires)

lemma req_fold_leaves:
  "req (fold (\<lambda>(p, n) g. add_node_edges p n g) leaves g) =
     req g \<union> set (concat (map (\<lambda>(p, n). map (\<lambda>d. (p, d)) (dependsOn n)) leaves))"
  by (induction leaves arbitrary: g) (auto simp: req_add_node_edges)

lemma req_build_graph:
  "req (build_graph (walk_entries [] sch)) = set (schema_requires sch)"
  by (simp add: build_graph_def schema_requires_def req_fold_leaves) (simp add: req_def)

lemma find_cycle_sound: "find_cycle g = Some m \<Longrightarrow> (m, m) \<in> (req g)\<^sup>+"
  unfolding find_cycle_def by (rule dfs_cycle_sound [OF dfs_inv_initial])

lemma find_cycle_complete:
  assumes "(p, p) \<in> (req g)\<^sup>+"
  shows "find_cycle g \<noteq> None"
proof
  assume none: "find_cycle g = None"
  from assms obtain u where "(p, u) \<in> req g" by (auto dest: tranclD)
  then have "(p, u, Requires) \<in> set g" by (simp add: req_def)
  then have "p \<in> fst ` set g" by force
  then have "p \<in> set [] \<union> frame_node ` set (map Enter (map fst g))" by force
  with dfs_inv_initial none [unfolded find_cycle_def]
  have "(p, p) \<notin> (req g)\<^sup>+" by (rule dfs_cycle_complete)
  with assms show False by contradiction
qed

lemma hasCircularDependency_iff:
  "hasCircularDependency g \<longleftrightarrow> (\<exists>p. (p, p) \<in> (req g)\<^sup>+)"
  unfolding hasCircularDependency_def
  using find_cycle_sound find_cycle_complete by blast

lemma schema_requires_cyclic_schema:
  "schema_requires cyclic_schema = [(''cache.url'', ''db.host''), (''db.host'', ''cache.url'')]"
  by (simp add: schema_requires_def cyclic_schema_def leaf_def dot_join_def)

lemma build_graph_cyclic_schema:
  "build_graph (walk_entries [] cyclic_schema) =
     [(''cache.url'', ''db.host'', Requires), (''db.host'', ''cache.url'', Requires)]"
  by (simp add: cyclic_schema_def leaf_def dot_join_def build_graph_def add_node_edges_def
        addDependency_def)

lemma compile_cyclic_schema:
  "compile cyclic_schema = Inl \<lparr> code = ''CIRCULAR_DEPENDENCY'', named_path = ''cache.url'' \<rparr>"
  by (simp add: compile_def build_graph_cyclic_schema find_cycle_def getDependencies_def)

text \<open>
  C7. For every schema whose \<open>requires\<close> edges contain a cycle, \<^verbatim>\<open>compile\<close> fails
  with a \<^verbatim>\<open>SchemaError\<close> whose code is \<^verbatim>\<open>CIRCULAR_DEPENDENCY\<close> and which names
  a path that lies on a cycle. The failure is the result of the compile step itself; no
  validation is part of it.
\<close>

theorem compile_rejects_cycles:
  assumes "(p, p) \<in> (set (schema_requires sch))\<^sup>+"
  shows "\<exists>m. compile sch = Inl \<lparr> code = ''CIRCULAR_DEPENDENCY'', named_path = m \<rparr> \<and>
             (m, m) \<in> (set (schema_requires sch))\<^sup>+"
proof -
  let ?g = "build_graph (walk_entries [] sch)"
  from assms have "(p, p) \<in> (req ?g)\<^sup>+" by (simp add: req_build_graph)
  then obtain m where m: "find_cycle ?g = Some m"
    using find_cycle_complete by blast
  then have "(m, m) \<in> (set (schema_requires sch))\<^sup>+"
    using find_cycle_sound [OF m] by (simp add: req_build_graph)
  with m show ?thesis by (simp add: compile_def)
qed

theorem compile_rejects_cycles_witness:
  "(''db.host'', ''db.host'') \<in> (set (schema_requires cyclic_schema))\<^sup>+ \<and>
   (\<exists>m. compile cyclic_schema = Inl \<lparr> code = ''CIRCULAR_DEPENDENCY'', named_path = m \<rparr> \<and>
        (m, m) \<in> (set (schema_requires cyclic_schema))\<^sup>+)"
proof -
  have "(''db.host'', ''cache.url'') \<in> set (schema_requires cyclic_schema)"
    and "(''cache.url'', ''db.host'') \<in> set (schema_requires cyclic_schema)"
    by (simp_all add: schema_requires_cyclic_schema)
  then have h: "(''db.host'', ''db.host'') \<in> (set (schema_requires cyclic_schema))\<^sup>+"
    by (rule trancl.intros(2) [OF trancl.intros(1)])
  from compile_rejects_cycles [OF h] h show ?thesis by blast
qed

section \<open>Properties of secret masking\<close>

lemma map_of_mask_props:
  "map_of (mask_props m es ps) k =
     map_option (\<lambda>v. case map_of es k of None \<Rightarrow> v | Some d \<Rightarrow> mask_node m d v) (map_of ps k)"
  by (induction ps) (auto split: option.splits)

lemma mask_node_secret_path:
  "schema_at d p = Some (Node n) \<Longrightarrow> secret n \<Longrightarrow> path_lookup cfg p = Some v \<Longrightarrow>
     path_lookup (mask_node m d cfg) p = Some m"
proof (induction p arbitrary: d cfg)
  case Nil
  then show ?case by simp
next
  case (Cons k ks)
  from Cons.prems(1) obtain es d' where d: "d = Definition es" "map_of es k = Some d'"
    "schema_at d' ks = Some (Node n)"
    by (cases d) (auto split: option.splits)
  from Cons.prems(3) obtain ps v' where
    c: "(\<exists>proto. cfg = JCreated ps proto) \<or> cfg = JObj ps" "map_of ps k = Some v'"
    "path_lookup v' ks = Some v"
    by (cases cfg) (auto split: option.splits)
  have "path_lookup (mask_node m d' v') ks = Some m"
    using d(3) Cons.prems(2) c(3) by (rule Cons.IH)
  then show ?case using d c by (auto simp: map_of_mask_props)
qed

text \<open>
  C8. For every schema, marker and configuration: at the path of every field the schema
  marks \<^verbatim>\<open>secret: true\<close> and the configuration has a value for, \<open>safeConfig\<close> holds
  the redaction marker, hence not the literal value (unless the value is the marker
  itself), while \<open>rawConfig\<close> is the raw input and holds whatever that has there.
\<close>

theorem safeConfig_masks_secrets:
  assumes "schema_at (Definition sch) p = Some (Node n)" and "secret n"
    and "path_lookup cfg p = Some v"
  shows "path_lookup (safeConfig (config_result marker sch raw cfg)) p = Some marker \<and>
         (v \<noteq> marker \<longrightarrow>
            path_lookup (safeConfig (config_result marker sch raw cfg)) p \<noteq> Some v) \<and>
         path_lookup (rawConfig (config_result marker sch raw cfg)) p = path_lookup raw p"
  using mask_node_secret_path [OF assms, of marker] by (simp add: config_result_def)

theorem safeConfig_masks_secrets_witness:
  "schema_at (Definition secret_schema) [''db'', ''password'']
     = Some (Node ((leaf TString [])\<lparr>secret := True\<rparr>)) \<and>
   secret ((leaf TString [])\<lparr>secret := True\<rparr>) \<and>
   path_lookup (JObj [(''db'', JObj [(''host'', JStr ''localhost''),
                                    (''password'', JStr ''hunter2'')])])
     [''db'', ''password''] = Some (JStr ''hunter2'') \<and>
   path_lookup
     (safeConfig
        (config_result (JStr ''[REDACTED]'') secret_schema
           (JObj [(''db'', JObj [(''host'', JStr ''localhost''),
                                 (''password'', JStr ''hunter2'')])])
           (JObj [(''db'', JObj [(''host'', JStr ''localhost''),
                                 (''password'', JStr ''hunter2'')])])))
     [''db'', ''password''] = Some (JStr ''[REDACTED]'') \<and>
   path_lookup
     (rawConfig
        (config_result (JStr ''[REDACTED]'') secret_schema
           (JObj [(''db'', JObj [(''host'', JStr ''localhost''),
                                 (''password'', JStr ''hunter2'')])])
           (JObj [(''db'', JObj [(''host'', JStr ''localhost''),
                                 (''password'', JStr ''hunter2'')])])))
     [''db'', ''password''] = Some (JStr ''hunter2'')"
proof -
  let ?cfg = "JObj [(''db'', JObj [(''host'', JStr ''localhost''),
                                  (''password'', JStr ''hunter2'')])]"
  have a: "schema_at (Definition secret_schema) [''db'', ''password'']
             = Some (Node ((leaf TString [])\<lparr>secret := True\<rparr>))"
    by (simp add: secret_schema_def)
  have b: "secret ((leaf TString [])\<lparr>secret := True\<rparr>)" by simp
  have c: "path_lookup ?cfg [''db'', ''password''] = Some (JStr ''hunter2'')" by simp
  from safeConfig_masks_secrets [OF a b c, of "JStr ''[REDACTED]''" ?cfg] a b c
  show ?thesis by simp
qed

end
